theory Spec2Isabelle
  imports Complex_Main "HOL-Library.AList"
begin

section \<open>AdvancedCache (src/hooks/usePerformance.ts)\<close>

text \<open>
  Time is the value of \<open>Date.now()\<close>: an integer number of milliseconds. Every
  function that reads the clock takes the value read as an argument, one argument per
  read. The store is a JavaScript \<open>Map\<close>: an association list in insertion order,
  where writing an existing key keeps its position (\<open>AList.update\<close>) and deleting a
  key removes its entry (\<open>AList.delete\<close>). Numbers that the source only uses as
  integers (sizes, counters, millisecond values) are \<open>nat\<close> or \<open>int\<close>; the hit
  rate, the one quotient, is a \<open>real\<close>.
\<close>

record 'v CacheEntry =
  data :: 'v
  timestamp :: int
  ttl :: int
  accessCount :: nat
  lastAccessed :: int
  tags :: "string list"

record CacheConfig =
  maxSize :: int
  defaultTTL :: int
  cleanupInterval :: int
  enableLRU :: bool

definition DEFAULT_CACHE_CONFIG :: CacheConfig where
  "DEFAULT_CACHE_CONFIG =
     \<lparr>maxSize = 1000, defaultTTL = 5 * 60 * 1000, cleanupInterval = 60 * 1000,
      enableLRU = True\<rparr>"

record 'v AdvancedCache =
  cache :: "(string \<times> 'v CacheEntry) list"
  config :: CacheConfig
  hitCount :: nat
  missCount :: nat

text \<open>The constructor: an empty store under the given configuration.\<close>

definition new_AdvancedCache :: "CacheConfig \<Rightarrow> 'v AdvancedCache" where
  "new_AdvancedCache cfg = \<lparr>cache = [], config = cfg, hitCount = 0, missCount = 0\<rparr>"

text \<open>\<open>keys.forEach(key => this.cache.delete(key))\<close>\<close>

definition delete_all :: "string list \<Rightarrow> (string \<times> 'e) list \<Rightarrow> (string \<times> 'e) list" where
  "delete_all ks al = foldl (\<lambda>m k. AList.delete k m) al ks"

text \<open>The test of \<open>cleanup\<close> and of \<open>get\<close>: \<open>now - entry.timestamp > entry.ttl\<close>.\<close>

definition expired :: "int \<Rightarrow> 'v CacheEntry \<Rightarrow> bool" where
  "expired now entry \<longleftrightarrow> now - timestamp entry > ttl entry"

text \<open>
  \<open>cleanup\<close>: first every expired entry is deleted; then, when LRU eviction is enabled
  and the store is still larger than \<open>maxSize\<close>, the entries are sorted by
  \<open>lastAccessed\<close> (\<open>Array.prototype.sort\<close> is stable, as \<open>sort_key\<close> is) and the first
  \<open>size - maxSize\<close> of them are deleted.
\<close>

definition AdvancedCache_cleanup :: "int \<Rightarrow> 'v AdvancedCache \<Rightarrow> 'v AdvancedCache" where
  "AdvancedCache_cleanup now c =
     (let entriesToDelete = map fst (filter (\<lambda>(key, entry). expired now entry) (cache c));
          c1 = delete_all entriesToDelete (cache c)
      in if enableLRU (config c) \<and> int (length c1) > maxSize (config c)
         then
           let entries = sort_key (\<lambda>(key, entry). lastAccessed entry) c1;
               toRemove = take (nat (int (length c1) - maxSize (config c))) entries
           in c\<lparr>cache := delete_all (map fst toRemove) c1\<rparr>
         else c\<lparr>cache := c1\<rparr>)"

text \<open>
  \<open>set\<close> reads the clock for \<open>timestamp\<close>, again for \<open>lastAccessed\<close>, and \<open>cleanup\<close>
  reads it a third time. An absent or zero \<open>ttl\<close> argument is falsy, so
  \<open>ttl || this.config.defaultTTL\<close> selects the default.
\<close>

definition AdvancedCache_set ::
  "int \<Rightarrow> int \<Rightarrow> int \<Rightarrow> string \<Rightarrow> 'v \<Rightarrow> int option \<Rightarrow> string list \<Rightarrow> 'v AdvancedCache
     \<Rightarrow> 'v AdvancedCache" where
  "AdvancedCache_set now1 now2 now3 key d ttl_arg tgs c =
     (let entry = \<lparr>data = d, timestamp = now1,
                   ttl = (case ttl_arg of None \<Rightarrow> defaultTTL (config c)
                          | Some t \<Rightarrow> if t = 0 then defaultTTL (config c) else t),
                   accessCount = 0, lastAccessed = now2, tags = tgs\<rparr>;
          c1 = c\<lparr>cache := AList.update key entry (cache c)\<rparr>
      in if int (length (cache c1)) > maxSize (config c1)
         then AdvancedCache_cleanup now3 c1
         else c1)"

text \<open>\<open>get\<close> returns the value or \<open>null\<close> (here \<open>None\<close>), and the updated cache.\<close>

definition AdvancedCache_get ::
  "int \<Rightarrow> string \<Rightarrow> 'v AdvancedCache \<Rightarrow> 'v option \<times> 'v AdvancedCache" where
  "AdvancedCache_get now key c =
     (case map_of (cache c) key of
        None \<Rightarrow> (None, c\<lparr>missCount := missCount c + 1\<rparr>)
      | Some entry \<Rightarrow>
          if now - timestamp entry > ttl entry
          then (None, c\<lparr>cache := AList.delete key (cache c), missCount := missCount c + 1\<rparr>)
          else (Some (data entry),
                c\<lparr>cache := AList.update key
                      (entry\<lparr>accessCount := accessCount entry + 1, lastAccessed := now\<rparr>)
                      (cache c),
                  hitCount := hitCount c + 1\<rparr>))"

definition AdvancedCache_clear :: "'v AdvancedCache \<Rightarrow> 'v AdvancedCache" where
  "AdvancedCache_clear c = c\<lparr>cache := [], hitCount := 0, missCount := 0\<rparr>"

record CacheStats =
  stats_size :: nat
  stats_hitRate :: real
  stats_hitCount :: nat
  stats_missCount :: nat
  stats_maxSize :: int

definition AdvancedCache_getStats :: "'v AdvancedCache \<Rightarrow> CacheStats" where
  "AdvancedCache_getStats c =
     (let total = hitCount c + missCount c
      in \<lparr>stats_size = length (cache c),
          stats_hitRate = (if total > 0 then (real (hitCount c) / real total) * 100 else 0),
          stats_hitCount = hitCount c,
          stats_missCount = missCount c,
          stats_maxSize = maxSize (config c)\<rparr>)"

text \<open>
  A call of \<open>set\<close> with its three clock readings and its arguments, and a sequence of
  such calls applied from left to right.
\<close>

datatype 'v SetCall = SetCall int int int string 'v "int option" "string list"

fun do_set :: "'v SetCall \<Rightarrow> 'v AdvancedCache \<Rightarrow> 'v AdvancedCache" where
  "do_set (SetCall now1 now2 now3 key d ttl_arg tgs) c =
     AdvancedCache_set now1 now2 now3 key d ttl_arg tgs c"

definition run_sets :: "'v SetCall list \<Rightarrow> 'v AdvancedCache \<Rightarrow> 'v AdvancedCache" where
  "run_sets calls c = fold do_set calls c"

text \<open>
  The call sequence \<open>set(a); set(b); get(a); set(c)\<close> on a new cache, each call with
  its own clock readings; the result of the \<open>get\<close> and the final cache.
\<close>

definition set_set_get_set ::
  "CacheConfig \<Rightarrow> int \<times> int \<times> int \<Rightarrow> int \<times> int \<times> int \<Rightarrow> int \<Rightarrow> int \<times> int \<times> int
     \<Rightarrow> string \<times> 'v \<Rightarrow> string \<times> 'v \<Rightarrow> string \<times> 'v \<Rightarrow> 'v option \<times> 'v AdvancedCache" where
  "set_set_get_set cfg ta tb g tc a b c =
     (let s1 = AdvancedCache_set (fst ta) (fst (snd ta)) (snd (snd ta)) (fst a) (snd a) None []
                 (new_AdvancedCache cfg);
          s2 = AdvancedCache_set (fst tb) (fst (snd tb)) (snd (snd tb)) (fst b) (snd b) None [] s1;
          r = AdvancedCache_get g (fst a) s2;
          s4 = AdvancedCache_set (fst tc) (fst (snd tc)) (snd (snd tc)) (fst c) (snd c) None []
                 (snd r)
      in (fst r, s4))"

text \<open>\<open>invalidate\<close> returns what \<open>Map.delete\<close> returns: whether the key was present.\<close>

definition AdvancedCache_invalidate :: "string \<Rightarrow> 'v AdvancedCache \<Rightarrow> bool \<times> 'v AdvancedCache" where
  "AdvancedCache_invalidate key c =
     (map_of (cache c) key \<noteq> None, c\<lparr>cache := AList.delete key (cache c)\<rparr>)"

text \<open>
  \<open>invalidateByTag\<close> deletes the key of every entry whose \<open>tags\<close> include the tag and
  returns how many it deleted.
\<close>

definition AdvancedCache_invalidateByTag ::
  "string \<Rightarrow> 'v AdvancedCache \<Rightarrow> nat \<times> 'v AdvancedCache" where
  "AdvancedCache_invalidateByTag tag c =
     (let tagged = map fst (filter (\<lambda>(key, entry). tag \<in> set (tags entry)) (cache c))
      in (length tagged, c\<lparr>cache := delete_all tagged (cache c)\<rparr>))"

text \<open>
  The operations that can run on a cache between two calls: the public methods, and
  \<open>cleanup\<close>, which the interval timer calls. Each carries the clock readings it makes.
\<close>

datatype 'v CacheOp =
    OpGet int string
  | OpSet int int int string 'v "int option" "string list"
  | OpCleanup int
  | OpInvalidate string
  | OpInvalidateByTag string
  | OpClear

fun do_op :: "'v CacheOp \<Rightarrow> 'v AdvancedCache \<Rightarrow> 'v AdvancedCache" where
  "do_op (OpGet now key) c = snd (AdvancedCache_get now key c)"
| "do_op (OpSet now1 now2 now3 key d ttl_arg tgs) c =
     AdvancedCache_set now1 now2 now3 key d ttl_arg tgs c"
| "do_op (OpCleanup now) c = AdvancedCache_cleanup now c"
| "do_op (OpInvalidate key) c = snd (AdvancedCache_invalidate key c)"
| "do_op (OpInvalidateByTag tag) c = snd (AdvancedCache_invalidateByTag tag c)"
| "do_op OpClear c = AdvancedCache_clear c"

definition run_ops :: "'v CacheOp list \<Rightarrow> 'v AdvancedCache \<Rightarrow> 'v AdvancedCache" where
  "run_ops ops c = fold do_op ops c"

text \<open>An operation overwrites a key when it is a \<open>set\<close> on that key.\<close>

fun overwrites :: "string \<Rightarrow> 'v CacheOp \<Rightarrow> bool" where
  "overwrites k (OpSet now1 now2 now3 key d ttl_arg tgs) = (key = k)"
| "overwrites k _ = False"

text \<open>
  The entry under a key, if there is one, has the given \<open>timestamp\<close> and \<open>ttl\<close>.
\<close>

definition stored_with :: "string \<Rightarrow> int \<Rightarrow> int \<Rightarrow> 'v AdvancedCache \<Rightarrow> bool" where
  "stored_with k created t c \<longleftrightarrow>
     (case map_of (cache c) k of None \<Rightarrow> True
      | Some e \<Rightarrow> timestamp e = created \<and> ttl e = t)"

section \<open>Retry with backoff (src/hooks/useNetworkRecovery.ts)\<close>

text \<open>
  The errors an operation throws are values of a type \<open>'e\<close>; \<open>retryCondition\<close> is the
  optional classifier of the configuration (\<open>config.retryCondition?.(error)\<close> is falsy
  when it is absent). Delays are integer milliseconds and the multiplier an integer, so
  \<open>Math.pow\<close> is exact.
\<close>

record 'e RetryConfig =
  maxRetries :: int
  initialDelay :: int
  maxDelay :: int
  backoffMultiplier :: int
  retryCondition :: "('e \<Rightarrow> bool) option"

text \<open>
  The default configuration. Its \<open>retryCondition\<close> tests the error's message against
  a list of regular expressions; the classifier is kept as the parameter \<open>p\<close>.
\<close>

definition DEFAULT_RETRY_CONFIG :: "('e \<Rightarrow> bool) \<Rightarrow> 'e RetryConfig" where
  "DEFAULT_RETRY_CONFIG p =
     \<lparr>maxRetries = 3, initialDelay = 1000, maxDelay = 30000, backoffMultiplier = 2,
      retryCondition = Some p\<rparr>"

text \<open>
  What a run of \<open>retryWithBackoff\<close> changes: the map \<open>retryAttemptsRef\<close>, and, kept
  here to observe the run, the number of times the operation has been invoked and the
  delays passed to \<open>setTimeout\<close>, in order.
\<close>

record RetryRefs =
  retryAttemptsRef :: "string \<rightharpoonup> nat"
  invocations :: nat
  delays :: "int list"

text \<open>The references of a hook that has run nothing yet.\<close>

definition fresh_RetryRefs :: RetryRefs where
  "fresh_RetryRefs = \<lparr>retryAttemptsRef = Map.empty, invocations = 0, delays = []\<rparr>"

text \<open>\<open>retryAttemptsRef.current.get(operationId) || 0\<close>\<close>

definition attempts_of :: "RetryRefs \<Rightarrow> string \<Rightarrow> nat" where
  "attempts_of r operationId = (case retryAttemptsRef r operationId of None \<Rightarrow> 0 | Some n \<Rightarrow> n)"

text \<open>
  \<open>Math.min(config.initialDelay * Math.pow(config.backoffMultiplier, attempts),
  config.maxDelay)\<close>
\<close>

definition backoff_delay :: "'e RetryConfig \<Rightarrow> nat \<Rightarrow> int" where
  "backoff_delay cfg attempts =
     min (initialDelay cfg * backoffMultiplier cfg ^ attempts) (maxDelay cfg)"

text \<open>
  The operation is a function of the number of invocations made before: \<open>operation i\<close>
  is what its \<open>i\<close>-th invocation does, \<open>Inl\<close> an error thrown and \<open>Inr\<close> a result.
  \<open>isOnline\<close> is \<open>networkStatus.isOnline\<close> as captured by the callback, the same
  value in every recursive call. The result is what the promise settles to, \<open>Inl\<close> for
  a rejection.
\<close>

function retryWithBackoff ::
  "'e RetryConfig \<Rightarrow> bool \<Rightarrow> (nat \<Rightarrow> 'e + 'a) \<Rightarrow> string \<Rightarrow> RetryRefs \<Rightarrow> ('e + 'a) \<times> RetryRefs"
  where
  "retryWithBackoff cfg isOnline operation operationId r =
     (let attempts = attempts_of r operationId;
          r1 = r\<lparr>invocations := invocations r + 1\<rparr>
      in case operation (invocations r) of
           Inr result \<Rightarrow>
             (Inr result, r1\<lparr>retryAttemptsRef := (retryAttemptsRef r1)(operationId := None)\<rparr>)
         | Inl err \<Rightarrow>
             if int attempts < maxRetries cfg
                \<and> (case retryCondition cfg of None \<Rightarrow> False | Some p \<Rightarrow> p err)
                \<and> isOnline
             then retryWithBackoff cfg isOnline operation operationId
                    (r1\<lparr>retryAttemptsRef := (retryAttemptsRef r1)(operationId \<mapsto> attempts + 1),
                        delays := delays r1 @ [backoff_delay cfg attempts]\<rparr>)
             else (Inl err, r1\<lparr>retryAttemptsRef := (retryAttemptsRef r1)(operationId := None)\<rparr>))"
  by pat_completeness auto
termination
  by (relation "measure (\<lambda>(cfg, isOnline, operation, operationId, r).
                   nat (maxRetries cfg) - attempts_of r operationId)")
     (auto simp: attempts_of_def)

declare retryWithBackoff.simps [simp del]

section \<open>Rate limiting (useRateLimit, src/hooks/useNetworkRecovery.ts)\<close>

text \<open>\<open>requestsRef.current\<close> is the list of recorded request times, in recording order.\<close>

definition isRateLimited :: "int \<Rightarrow> int \<Rightarrow> int \<Rightarrow> int list \<Rightarrow> bool \<times> int list" where
  "isRateLimited maxRequests windowMs now requests =
     (let windowStart = now - windowMs;
          requests' = filter (\<lambda>time. time > windowStart) requests
      in (int (length requests') \<ge> maxRequests, requests'))"

definition trackRequest :: "int \<Rightarrow> int list \<Rightarrow> int list" where
  "trackRequest now requests = requests @ [now]"

definition getRemainingRequests :: "int \<Rightarrow> int \<Rightarrow> int \<Rightarrow> int list \<Rightarrow> int" where
  "getRemainingRequests maxRequests windowMs now requests =
     (let windowStart = now - windowMs;
          validRequests = filter (\<lambda>time. time > windowStart) requests
      in max 0 (maxRequests - int (length validRequests)))"

text \<open>\<open>Math.min(...requests)\<close> of a non-empty list is \<open>min_list\<close>.\<close>

definition getResetTime :: "int \<Rightarrow> int list \<Rightarrow> int" where
  "getResetTime windowMs requests =
     (if length requests = 0 then 0
      else let oldestRequest = min_list requests in oldestRequest + windowMs)"

text \<open>
  The reset time in the specification's words: the time the oldest recorded request
  leaves the window, or the current time when nothing is recorded.
\<close>

definition resetAt_spec :: "int \<Rightarrow> int \<Rightarrow> int list \<Rightarrow> int" where
  "resetAt_spec windowMs now requests =
     (if requests = [] then now else Min (set requests) + windowMs)"

section \<open>WebSocket hook (useHyperliquidWebSocket)\<close>

text \<open>
  The hook's references and React state are the fields of one record. \<open>readyState\<close> is
  \<open>wsRef.current?.readyState\<close> (\<open>None\<close> when \<open>wsRef.current\<close> is \<open>null\<close>); \<open>sent\<close> is
  the list of frames handed to \<open>WebSocket.send\<close>; \<open>timeouts\<close> holds the subscriptions
  whose \<open>setTimeout(() => subscribe(subscription), 100)\<close> has not fired yet, in
  scheduling order; a timer reference holds the delay or interval it was set with;
  \<open>delivered\<close> and \<open>reported\<close> record the calls of the \<open>onMessage\<close> and \<open>onError\<close>
  callbacks. Log lines and toasts are left out. The error strings are the constructors
  of \<open>WSError\<close>.
\<close>

datatype SubscriptionType = allMids | orderbook | trades | userEvents | userFills | userFundings

record Subscription =
  sub_type :: SubscriptionType
  coin :: "string option"
  user :: "string option"

datatype WSOutgoing = Subscribe Subscription | Unsubscribe Subscription | Ping

datatype ReadyState = CONNECTING | OPEN | CLOSING | CLOSED

datatype WSError =
    FailedToParse
  | ConnectionLost nat int
  | FailedToReconnect
  | ConnectionError
  | FailedToCreate

record WSMessage =
  channel :: string
  payload :: string
  received :: int

text \<open>An incoming frame: a pong, a data frame, or text that \<open>JSON.parse\<close> rejects.\<close>

datatype WSFrame = Pong | Frame string string | Malformed

record WebSocketConfig =
  url :: string
  reconnectAttempts :: int
  reconnectInterval :: int
  heartbeatInterval :: int
  subscriptions :: "Subscription list"

record WebSocketState =
  isConnected :: bool
  isConnecting :: bool
  lastMessage :: "WSMessage option"
  error :: "WSError option"
  reconnectCount :: nat
  latency :: int

record Hook =
  readyState :: "ReadyState option"
  sent :: "WSOutgoing list"
  reconnectTimeoutRef :: "int option"
  heartbeatTimeoutRef :: "int option"
  pingTimeRef :: int
  state :: WebSocketState
  timeouts :: "Subscription list"
  delivered :: "WSMessage list"
  reported :: "WSError list"

definition DEFAULT_CONFIG :: WebSocketConfig where
  "DEFAULT_CONFIG =
     \<lparr>url = ''wss://api.hyperliquid.xyz/ws'', reconnectAttempts = 5, reconnectInterval = 3000,
      heartbeatInterval = 30000, subscriptions = []\<rparr>"

text \<open>The hook as first rendered: no socket, no timers, the initial React state.\<close>

definition initial_Hook :: Hook where
  "initial_Hook =
     \<lparr>readyState = None, sent = [], reconnectTimeoutRef = None, heartbeatTimeoutRef = None,
      pingTimeRef = 0,
      state = \<lparr>isConnected = False, isConnecting = False, lastMessage = None, error = None,
               reconnectCount = 0, latency = 0\<rparr>,
      timeouts = [], delivered = [], reported = []\<rparr>"

text \<open>
  \<open>sendMessage\<close> sends only on an open socket and returns whether it did. (\<open>send\<close>
  throws only while the socket is still connecting, which the test excludes.)
\<close>

definition sendMessage :: "WSOutgoing \<Rightarrow> Hook \<Rightarrow> bool \<times> Hook" where
  "sendMessage message h =
     (if readyState h = Some OPEN then (True, h\<lparr>sent := sent h @ [message]\<rparr>)
      else (False, h))"

definition subscribe :: "Subscription \<Rightarrow> Hook \<Rightarrow> bool \<times> Hook" where
  "subscribe subscription h = sendMessage (Subscribe subscription) h"

definition unsubscribe :: "Subscription \<Rightarrow> Hook \<Rightarrow> bool \<times> Hook" where
  "unsubscribe subscription h = sendMessage (Unsubscribe subscription) h"

definition sendPing :: "int \<Rightarrow> Hook \<Rightarrow> Hook" where
  "sendPing now h =
     (if readyState h = Some OPEN then snd (sendMessage Ping (h\<lparr>pingTimeRef := now\<rparr>))
      else h)"

definition handleMessage :: "int \<Rightarrow> WSFrame \<Rightarrow> Hook \<Rightarrow> Hook" where
  "handleMessage now frame h =
     (case frame of
        Pong \<Rightarrow> h\<lparr>state := (state h)\<lparr>latency := now - pingTimeRef h\<rparr>\<rparr>
      | Frame ch d \<Rightarrow>
          (let message = \<lparr>channel = ch, payload = d, received = now\<rparr>
           in h\<lparr>state := (state h)\<lparr>lastMessage := Some message, error := None\<rparr>,
                delivered := delivered h @ [message]\<rparr>)
      | Malformed \<Rightarrow> h\<lparr>state := (state h)\<lparr>error := Some FailedToParse\<rparr>\<rparr>)"

text \<open>
  \<open>handleOpen\<close> runs when the socket has opened: it resets the state, schedules one
  timer per configured subscription and starts the heartbeat interval.
\<close>

definition handleOpen :: "WebSocketConfig \<Rightarrow> Hook \<Rightarrow> Hook" where
  "handleOpen wsConfig h =
     h\<lparr>state := (state h)\<lparr>isConnected := True, isConnecting := False, error := None,
                           reconnectCount := 0\<rparr>,
       timeouts := timeouts h @ subscriptions wsConfig,
       heartbeatTimeoutRef := Some (heartbeatInterval wsConfig)\<rparr>"

text \<open>
  The socket opens: the browser sets \<open>readyState\<close> to \<open>OPEN\<close> and calls the \<open>onopen\<close>
  handler.
\<close>

definition onopen :: "WebSocketConfig \<Rightarrow> Hook \<Rightarrow> Hook" where
  "onopen wsConfig h = handleOpen wsConfig (h\<lparr>readyState := Some OPEN\<rparr>)"

text \<open>The pending subscription timers fire, oldest first; each calls \<open>subscribe\<close>.\<close>

definition runTimeouts :: "Hook \<Rightarrow> Hook" where
  "runTimeouts h =
     fold (\<lambda>subscription h'. snd (subscribe subscription h')) (timeouts h) (h\<lparr>timeouts := []\<rparr>)"

text \<open>
  \<open>handleClose\<close> reads \<open>state.reconnectCount\<close> from the render it was created in
  (the argument \<open>rendered\<close>), while its \<open>setState\<close> updaters work on the current state.
  The delay is \<open>wsConfig.reconnectInterval * Math.pow(2, state.reconnectCount)\<close>.
\<close>

definition handleClose :: "WebSocketConfig \<Rightarrow> WebSocketState \<Rightarrow> int \<Rightarrow> Hook \<Rightarrow> Hook" where
  "handleClose wsConfig rendered code h =
     (let h1 = h\<lparr>state := (state h)\<lparr>isConnected := False, isConnecting := False\<rparr>,
                  heartbeatTimeoutRef := None\<rparr>
      in if code \<noteq> 1000 \<and> int (reconnectCount rendered) < reconnectAttempts wsConfig
         then
           let delay = reconnectInterval wsConfig * 2 ^ reconnectCount rendered
           in h1\<lparr>state := (state h1)
                         \<lparr>reconnectCount := reconnectCount (state h1) + 1,
                          error := Some (ConnectionLost (reconnectCount (state h1) + 1)
                                          (reconnectAttempts wsConfig))\<rparr>,
                 reconnectTimeoutRef := Some delay\<rparr>
         else if int (reconnectCount rendered) \<ge> reconnectAttempts wsConfig
         then h1\<lparr>state := (state h1)\<lparr>error := Some FailedToReconnect\<rparr>,
                 reported := reported h1 @ [FailedToReconnect]\<rparr>
         else h1)"

text \<open>
  The events that reach an open connection between its opening and its closing: the
  heartbeat interval fires (\<open>sendPing\<close>), or a frame arrives (\<open>handleMessage\<close>).
\<close>

datatype WSEvent = HeartbeatTick int | Incoming int WSFrame

fun handleEvent :: "WSEvent \<Rightarrow> Hook \<Rightarrow> Hook" where
  "handleEvent (HeartbeatTick now) h = sendPing now h"
| "handleEvent (Incoming now frame) h = handleMessage now frame h"

section \<open>Properties of the cache\<close>

lemma get_counts_one:
  "hitCount (snd (AdvancedCache_get now key c)) + missCount (snd (AdvancedCache_get now key c))
     = hitCount c + missCount c + 1"
  by (simp add: AdvancedCache_get_def split: option.split)

lemma hitRate_le_100: "real h / real (h + m) * 100 \<le> 100"
proof (cases "h + m = 0")
  case True
  then show ?thesis by simp
next
  case False
  then have "0 < h + m" by simp
  then have pos: "0 < real (h + m)" by (simp only: of_nat_0_less_iff)
  have "real h \<le> real (h + m)" by simp
  then have "real h / real (h + m) \<le> 1" using pos by (simp add: divide_le_eq)
  then have "real h / real (h + m) * 100 \<le> 1 * 100" by (rule mult_right_mono) simp
  then show ?thesis by (simp only: mult_1)
qed

text \<open>
  Claim C10. The statistics report the hit rate as a percentage: it is
  \<open>100 * hitCount / (hitCount + missCount)\<close> when that sum is positive and \<open>0\<close> when it is
  zero, so it always lies between 0 and 100; and every \<open>get\<close> adds one to the sum, so
  the sum is positive once a \<open>get\<close> has been counted.
\<close>

theorem C10_hitRate_percentage:
  "stats_hitRate (AdvancedCache_getStats c) =
     (if hitCount c + missCount c = 0 then 0
      else 100 * real (hitCount c) / real (hitCount c + missCount c))
   \<and> 0 \<le> stats_hitRate (AdvancedCache_getStats c)
   \<and> stats_hitRate (AdvancedCache_getStats c) \<le> 100
   \<and> 0 < hitCount (snd (AdvancedCache_get now key c))
          + missCount (snd (AdvancedCache_get now key c))"
proof -
  have a: "stats_hitRate (AdvancedCache_getStats c) =
     (if hitCount c + missCount c = 0 then 0
      else 100 * real (hitCount c) / real (hitCount c + missCount c))"
    by (simp add: AdvancedCache_getStats_def Let_def)
  have b: "0 \<le> stats_hitRate (AdvancedCache_getStats c)"
    by (simp add: AdvancedCache_getStats_def Let_def)
  have c: "stats_hitRate (AdvancedCache_getStats c) \<le> 100"
    using hitRate_le_100 [of "hitCount c" "missCount c"]
    by (simp add: AdvancedCache_getStats_def Let_def)
  have d: "0 < hitCount (snd (AdvancedCache_get now key c))
          + missCount (snd (AdvancedCache_get now key c))"
    using get_counts_one [of now key c] by simp
  from a b c d show ?thesis by blast
qed

lemma delete_all_filter: "delete_all ks al = filter (\<lambda>p. fst p \<notin> set ks) al"
  unfolding delete_all_def
proof (induction ks arbitrary: al)
  case Nil
  then show ?case by simp
next
  case (Cons k ks)
  have "filter (\<lambda>p. fst p \<notin> set ks) (AList.delete k al) = filter (\<lambda>p. fst p \<notin> set (k # ks)) al"
    by (induction al) (auto simp: AList.delete_eq)
  with Cons show ?case by simp
qed

lemma length_evict_le:
  "length (delete_all (map fst (take n (sort_key f al))) al) \<le> length al - n"
proof -
  let ?ys = "sort_key f al"
  let ?P = "\<lambda>p. fst p \<notin> set (map fst (take n ?ys))"
  have "length (filter ?P al) = length (sort_key f (filter ?P al))" by simp
  also have "\<dots> = length (filter ?P ?ys)" by (simp only: filter_sort)
  also have "\<dots> = length (filter ?P (take n ?ys)) + length (filter ?P (drop n ?ys))"
    by (metis append_take_drop_id filter_append length_append)
  finally have split: "length (filter ?P al)
      = length (filter ?P (take n ?ys)) + length (filter ?P (drop n ?ys))" .
  have none: "filter ?P (take n ?ys) = []"
    by (auto simp: filter_empty_conv)
  have "length (filter ?P (drop n ?ys)) \<le> length (drop n ?ys)"
    by (rule length_filter_le)
  then have "length (filter ?P al) \<le> length al - n"
    using split none by simp
  then show ?thesis by (simp only: delete_all_filter)
qed

lemma config_cleanup: "config (AdvancedCache_cleanup now c) = config c"
  by (simp add: AdvancedCache_cleanup_def Let_def)

lemma config_set: "config (AdvancedCache_set n1 n2 n3 k d t tg c) = config c"
  by (simp add: AdvancedCache_set_def Let_def config_cleanup)

lemma length_delete_all_le: "length (delete_all ks al) \<le> length al"
  by (simp add: delete_all_filter)

lemma cleanup_bound:
  assumes "enableLRU (config c)" and "0 \<le> maxSize (config c)"
  shows "int (length (cache (AdvancedCache_cleanup now c))) \<le> maxSize (config c)"
proof -
  define c1 where "c1 = delete_all (map fst (filter (\<lambda>(key, entry). expired now entry) (cache c))) (cache c)"
  show ?thesis
  proof (cases "int (length c1) > maxSize (config c)")
    case True
    define n where "n = nat (int (length c1) - maxSize (config c))"
    have "length (delete_all (map fst (take n (sort_key (\<lambda>(key, entry). lastAccessed entry) c1))) c1)
            \<le> length c1 - n"
      by (rule length_evict_le)
    moreover have "int (length c1 - n) = maxSize (config c)"
      using True assms(2) by (simp add: n_def)
    ultimately show ?thesis
      using True assms(1) by (simp add: AdvancedCache_cleanup_def Let_def c1_def n_def)
  next
    case False
    then show ?thesis
      by (simp add: AdvancedCache_cleanup_def Let_def c1_def)
  qed
qed

lemma set_bound:
  assumes "enableLRU (config c)" and "0 \<le> maxSize (config c)"
  shows "int (length (cache (AdvancedCache_set n1 n2 n3 k d t tg c))) \<le> maxSize (config c)"
proof -
  define c1 where "c1 = c\<lparr>cache := AList.update k \<lparr>data = d, timestamp = n1,
                   ttl = (case t of None \<Rightarrow> defaultTTL (config c)
                          | Some t \<Rightarrow> if t = 0 then defaultTTL (config c) else t),
                   accessCount = 0, lastAccessed = n2, tags = tg\<rparr> (cache c)\<rparr>"
  have cfg: "config c1 = config c" by (simp add: c1_def)
  show ?thesis
  proof (cases "int (length (cache c1)) > maxSize (config c1)")
    case True
    then have "AdvancedCache_set n1 n2 n3 k d t tg c = AdvancedCache_cleanup n3 c1"
      by (simp add: AdvancedCache_set_def Let_def c1_def)
    then show ?thesis using cleanup_bound [of c1 n3] assms cfg by simp
  next
    case False
    then have "AdvancedCache_set n1 n2 n3 k d t tg c = c1"
      by (simp add: AdvancedCache_set_def Let_def c1_def)
    then show ?thesis using False cfg by simp
  qed
qed


lemma config_do_set: "config (do_set call c) = config c"
  by (cases call) (simp add: config_set)

lemma config_run_sets: "config (run_sets calls c) = config c"
  unfolding run_sets_def by (induction calls arbitrary: c) (simp_all add: config_do_set)

lemma run_sets_bound:
  assumes "enableLRU (config c)" and "0 \<le> maxSize (config c)" and "calls \<noteq> []"
  shows "int (length (cache (run_sets calls c))) \<le> maxSize (config c)"
proof -
  from assms(3) obtain ys y where calls: "calls = ys @ [y]"
    by (metis rev_exhaust)
  obtain n1 n2 n3 k d t tg where y: "y = SetCall n1 n2 n3 k d t tg" by (cases y)
  let ?c = "run_sets ys c"
  have "run_sets calls c = AdvancedCache_set n1 n2 n3 k d t tg ?c"
    by (simp add: run_sets_def calls y)
  moreover have "int (length (cache (AdvancedCache_set n1 n2 n3 k d t tg ?c))) \<le> maxSize (config ?c)"
    using assms(1,2) by (intro set_bound) (simp_all add: config_run_sets)
  ultimately show ?thesis by (simp add: config_run_sets)
qed

text \<open>
  Claim C1, amended. On a cache with LRU eviction enabled and a capacity that is not
  negative, after each call of any sequence of \<open>set\<close> calls the store holds at most
  \<open>maxSize\<close> entries, whatever the cache held before and whatever the clock reads.
\<close>

theorem C1_size_bound_with_LRU:
  assumes "enableLRU (config c)" and "0 \<le> maxSize (config c)"
    and "0 < n" and "n \<le> length calls"
  shows "int (length (cache (run_sets (take n calls) c))) \<le> maxSize (config c)"
proof -
  from assms(3,4) have "take n calls \<noteq> []" by auto
  with assms(1,2) show ?thesis by (rule run_sets_bound)
qed

theorem C1_size_bound_with_LRU_witness:
  "enableLRU (config (new_AdvancedCache (DEFAULT_CACHE_CONFIG\<lparr>maxSize := 1\<rparr>) :: nat AdvancedCache))
   \<and> 0 \<le> maxSize (config (new_AdvancedCache (DEFAULT_CACHE_CONFIG\<lparr>maxSize := 1\<rparr>)
                         :: nat AdvancedCache))
   \<and> (0::nat) < 2
   \<and> (2::nat) \<le> length [SetCall 0 0 0 ''a'' (1::nat) None [], SetCall 1 1 1 ''b'' 2 None []]
   \<and> int (length (cache (run_sets
            (take 2 [SetCall 0 0 0 ''a'' (1::nat) None [], SetCall 1 1 1 ''b'' 2 None []])
            (new_AdvancedCache (DEFAULT_CACHE_CONFIG\<lparr>maxSize := 1\<rparr>))))) \<le> 1"
  using C1_size_bound_with_LRU
    [of "new_AdvancedCache (DEFAULT_CACHE_CONFIG\<lparr>maxSize := 1\<rparr>) :: nat AdvancedCache"
      2 "[SetCall 0 0 0 ''a'' (1::nat) None [], SetCall 1 1 1 ''b'' 2 None []]"]
  by (simp add: new_AdvancedCache_def DEFAULT_CACHE_CONFIG_def)

text \<open>
  With \<open>enableLRU = false\<close> and \<open>maxSize = 1\<close>, two \<open>set\<close> calls on distinct keys leave
  two entries in the store.
\<close>

theorem C1_counterexample:
  "\<not> int (length (cache (run_sets
            [SetCall 0 0 0 ''a'' (1::nat) None [], SetCall 1 1 1 ''b'' 2 None []]
            (new_AdvancedCache (DEFAULT_CACHE_CONFIG\<lparr>maxSize := 1, enableLRU := False\<rparr>)))))
        \<le> maxSize (DEFAULT_CACHE_CONFIG\<lparr>maxSize := 1, enableLRU := False\<rparr>)"
  by (simp add: run_sets_def AdvancedCache_set_def AdvancedCache_cleanup_def delete_all_def
      expired_def new_AdvancedCache_def DEFAULT_CACHE_CONFIG_def Let_def)

lemma map_of_delete_all:
  "map_of (delete_all ks al) k = (if k \<in> set ks then None else map_of al k)"
  unfolding delete_all_def
  by (induction ks arbitrary: al) (simp_all add: AList.delete_conv')

text \<open>
  What \<open>set\<close> stores: if the key is still present after the call, its entry carries the
  first clock reading as \<open>timestamp\<close> and the \<open>ttl\<close> argument, or the default when the
  argument is absent or zero, as \<open>ttl\<close>.
\<close>

lemma set_stores_entry:
  assumes "map_of (cache (AdvancedCache_set n1 n2 n3 key d targ tgs c)) key = Some e"
  shows "timestamp e = n1 \<and> lastAccessed e = n2 \<and> data e = d
     \<and> ttl e = (case targ of None \<Rightarrow> defaultTTL (config c)
                 | Some t \<Rightarrow> if t = 0 then defaultTTL (config c) else t)"
  using assms
  by (auto simp: AdvancedCache_set_def AdvancedCache_cleanup_def Let_def map_of_delete_all
      AList.update_conv' split: if_splits)

text \<open>
  Operations other than a \<open>set\<close> on the key leave the \<open>timestamp\<close> and \<open>ttl\<close> of its
  entry as they are, or remove the entry.
\<close>

lemma stored_with_cleanup:
  "stored_with k created t c \<Longrightarrow> stored_with k created t (AdvancedCache_cleanup now c)"
  by (simp add: stored_with_def AdvancedCache_cleanup_def Let_def map_of_delete_all
      split: option.splits)

lemma stored_with_get:
  "stored_with k created t c \<Longrightarrow> stored_with k created t (snd (AdvancedCache_get now key c))"
  by (auto simp: stored_with_def AdvancedCache_get_def AList.update_conv' AList.delete_conv'
      split: option.splits if_splits)

lemma stored_with_set_other:
  assumes "stored_with k created t c" and "key \<noteq> k"
  shows "stored_with k created t (AdvancedCache_set now1 now2 now3 key d ttl_arg tgs c)"
proof -
  let ?c1 = "c\<lparr>cache := AList.update key
      \<lparr>data = d, timestamp = now1,
       ttl = (case ttl_arg of None \<Rightarrow> defaultTTL (config c)
              | Some t \<Rightarrow> if t = 0 then defaultTTL (config c) else t),
       accessCount = 0, lastAccessed = now2, tags = tgs\<rparr> (cache c)\<rparr>"
  have c1: "stored_with k created t ?c1"
    using assms by (simp add: stored_with_def AList.update_conv')
  show ?thesis
    using c1 stored_with_cleanup [OF c1, of now3]
    by (simp add: AdvancedCache_set_def Let_def)
qed

lemma stored_with_do_op:
  "stored_with k created t c \<Longrightarrow> \<not> overwrites k op \<Longrightarrow> stored_with k created t (do_op op c)"
proof (cases op)
  case (OpGet now key)
  assume "stored_with k created t c"
  then show ?thesis using OpGet by (simp add: stored_with_get)
next
  case (OpSet now1 now2 now3 key d ttl_arg tgs)
  assume "stored_with k created t c" and "\<not> overwrites k op"
  then show ?thesis using OpSet by (simp add: stored_with_set_other)
next
  case (OpCleanup now)
  assume "stored_with k created t c"
  then show ?thesis using OpCleanup by (simp add: stored_with_cleanup)
next
  case (OpInvalidate key)
  assume "stored_with k created t c"
  then show ?thesis
    using OpInvalidate
    by (auto simp: stored_with_def AdvancedCache_invalidate_def AList.delete_conv'
        split: option.splits)
next
  case (OpInvalidateByTag tag)
  assume "stored_with k created t c"
  then show ?thesis
    using OpInvalidateByTag
    by (simp add: stored_with_def AdvancedCache_invalidateByTag_def Let_def map_of_delete_all
        split: option.splits)
next
  case OpClear
  then show ?thesis by (simp add: stored_with_def AdvancedCache_clear_def)
qed

lemma stored_with_run_ops:
  "stored_with k created t c \<Longrightarrow> \<forall>op \<in> set ops. \<not> overwrites k op
     \<Longrightarrow> stored_with k created t (run_ops ops c)"
  unfolding run_ops_def
  by (induction ops arbitrary: c) (simp_all add: stored_with_do_op)

lemma stored_with_set:
  "stored_with key created
     (case targ of None \<Rightarrow> defaultTTL (config c)
      | Some t \<Rightarrow> if t = 0 then defaultTTL (config c) else t)
     (AdvancedCache_set created n2 n3 key d targ tgs c)"
  using set_stores_entry [of created n2 n3 key d targ tgs c]
  by (simp add: stored_with_def split: option.splits)

lemma get_after_ttl_is_miss:
  assumes "stored_with key created t c" and "now - created > t"
  shows "fst (AdvancedCache_get now key c) = None
     \<and> key \<notin> fst ` set (cache (snd (AdvancedCache_get now key c)))"
proof (cases "map_of (cache c) key")
  case None
  then have "key \<notin> fst ` set (cache c)" by (simp add: map_of_eq_None_iff)
  then show ?thesis using None by (simp add: AdvancedCache_get_def)
next
  case (Some e)
  then have "timestamp e = created \<and> ttl e = t"
    using assms(1) by (simp add: stored_with_def)
  then show ?thesis
    using Some assms(2) by (simp add: AdvancedCache_get_def AList.delete_notin_dom)
qed

text \<open>
  Claim C4, amended. A key is stored by \<open>set\<close> with a TTL argument \<open>t\<close> other than 0,
  the entry being created at the first clock reading of that call. After any operations
  on the cache that do not \<open>set\<close> that key again (gets of any key, sets of other keys,
  cleanups, invalidations, a clear), a \<open>get\<close> of the key at a time more than \<open>t\<close> after
  the creation returns \<open>null\<close> and leaves no entry for the key in the store. A \<open>get\<close> of
  a key that has no entry returns \<open>null\<close> and leaves the store as it is. Whenever \<open>get\<close>
  returns a value, it is the value of an entry that has not expired. \<open>get\<close> has no
  failing branch.
\<close>

theorem C4_get_after_ttl_of_set_is_miss:
  assumes "t \<noteq> 0"
    and "\<forall>op \<in> set ops. \<not> overwrites key op"
    and "now - created > t"
  shows "fst (AdvancedCache_get now key
            (run_ops ops (AdvancedCache_set created n2 n3 key d (Some t) tgs c))) = None
     \<and> key \<notin> fst ` set (cache (snd (AdvancedCache_get now key
            (run_ops ops (AdvancedCache_set created n2 n3 key d (Some t) tgs c)))))
     \<and> (map_of (cache c) key = None \<longrightarrow>
          fst (AdvancedCache_get now key c) = None
          \<and> cache (snd (AdvancedCache_get now key c)) = cache c)
     \<and> (fst (AdvancedCache_get now key c) = Some v \<longrightarrow>
          (\<exists>e. map_of (cache c) key = Some e \<and> data e = v \<and> \<not> now - timestamp e > ttl e))"
proof -
  have "stored_with key created t (AdvancedCache_set created n2 n3 key d (Some t) tgs c)"
    using stored_with_set [where targ = "Some t" and key = key and created = created and c = c
        and ?n2.0 = n2 and ?n3.0 = n3 and d = d and tgs = tgs] assms(1)
    by simp
  then have "stored_with key created t
      (run_ops ops (AdvancedCache_set created n2 n3 key d (Some t) tgs c))"
    using assms(2) by (rule stored_with_run_ops)
  then have miss: "fst (AdvancedCache_get now key
            (run_ops ops (AdvancedCache_set created n2 n3 key d (Some t) tgs c))) = None
     \<and> key \<notin> fst ` set (cache (snd (AdvancedCache_get now key
            (run_ops ops (AdvancedCache_set created n2 n3 key d (Some t) tgs c)))))"
    using assms(3) by (rule get_after_ttl_is_miss)
  have absent: "map_of (cache c) key = None \<longrightarrow>
          fst (AdvancedCache_get now key c) = None
          \<and> cache (snd (AdvancedCache_get now key c)) = cache c"
    by (simp add: AdvancedCache_get_def)
  have hit: "fst (AdvancedCache_get now key c) = Some v \<longrightarrow>
          (\<exists>e. map_of (cache c) key = Some e \<and> data e = v \<and> \<not> now - timestamp e > ttl e)"
    by (auto simp: AdvancedCache_get_def split: option.splits if_splits)
  from miss absent hit show ?thesis by blast
qed

theorem C4_get_after_ttl_of_set_is_miss_witness:
  "(100::int) \<noteq> 0
   \<and> \<not> overwrites ''k'' (OpGet 90 ''k'' :: nat CacheOp)
   \<and> \<not> overwrites ''k'' (OpSet 95 95 95 ''j'' (8::nat) None [])
   \<and> \<not> overwrites ''k'' (OpCleanup 96 :: nat CacheOp)
   \<and> (101::int) - 0 > 100
   \<and> fst (AdvancedCache_get 101 ''k''
          (run_ops [OpGet 90 ''k'', OpSet 95 95 95 ''j'' 8 None [], OpCleanup 96]
            (AdvancedCache_set 0 0 0 ''k'' (7::nat) (Some 100) []
              (new_AdvancedCache DEFAULT_CACHE_CONFIG)))) = None
   \<and> map fst (cache (snd (AdvancedCache_get 101 ''k''
          (run_ops [OpGet 90 ''k'', OpSet 95 95 95 ''j'' 8 None [], OpCleanup 96]
            (AdvancedCache_set 0 0 0 ''k'' (7::nat) (Some 100) []
              (new_AdvancedCache DEFAULT_CACHE_CONFIG)))))) = [''j'']
   \<and> map_of (cache (new_AdvancedCache DEFAULT_CACHE_CONFIG :: nat AdvancedCache)) ''k'' = None
   \<and> fst (AdvancedCache_get 101 ''k'' (new_AdvancedCache DEFAULT_CACHE_CONFIG :: nat AdvancedCache))
       = None
   \<and> fst (AdvancedCache_get 1050 ''k''
          (AdvancedCache_set 1000 1000 1000 ''k'' (7::nat) (Some 100) []
            (new_AdvancedCache DEFAULT_CACHE_CONFIG))) = Some 7
   \<and> \<not> (1050::int) - 1000 > 100"
  using
    C4_get_after_ttl_of_set_is_miss
      [where t = 100 and key = "''k''" and created = 0 and now = 101
        and ops = "[OpGet 90 ''k'', OpSet 95 95 95 ''j'' (8::nat) None [], OpCleanup 96]"
        and ?n2.0 = 0 and ?n3.0 = 0 and d = 7 and tgs = "[]"
        and c = "new_AdvancedCache DEFAULT_CACHE_CONFIG" and v = 7]
    C4_get_after_ttl_of_set_is_miss
      [where t = 100 and key = "''k''" and created = 0 and now = 1050
        and ops = "[] :: nat CacheOp list"
        and ?n2.0 = 0 and ?n3.0 = 0 and d = 7 and tgs = "[]"
        and c = "AdvancedCache_set 1000 1000 1000 ''k'' (7::nat) (Some 100) []
                   (new_AdvancedCache DEFAULT_CACHE_CONFIG)" and v = 7]
  by (simp add: run_ops_def AdvancedCache_set_def AdvancedCache_get_def
      AdvancedCache_cleanup_def new_AdvancedCache_def DEFAULT_CACHE_CONFIG_def delete_all_def
      expired_def Let_def)

text \<open>
  A TTL argument of 0 is replaced by the default of five minutes: the entry stored at
  time 0 with \<open>ttl = 0\<close> is returned by a \<open>get\<close> one millisecond later.
\<close>

theorem C4_counterexample:
  "fst (AdvancedCache_get 1 ''k''
          (AdvancedCache_set 0 0 0 ''k'' (7::nat) (Some 0) []
            (new_AdvancedCache DEFAULT_CACHE_CONFIG))) = Some 7
   \<and> (1::int) - 0 > 0"
  by (simp add: AdvancedCache_set_def AdvancedCache_get_def new_AdvancedCache_def
      DEFAULT_CACHE_CONFIG_def Let_def)

text \<open>
  Claim C5, amended. On a new cache with \<open>maxSize = 2\<close> and LRU eviction, the sequence
  \<open>set(a); set(b); get(a); set(c)\<close> on three distinct keys, with no entry expiring
  meanwhile, evicts exactly \<open>b\<close> and leaves \<open>a\<close> and \<open>c\<close> retrievable, provided the
  clock read by \<open>get(a)\<close> is later than the \<open>lastAccessed\<close> that \<open>set(b)\<close> wrote and the
  \<open>lastAccessed\<close> that \<open>set(c)\<close> writes is not earlier than it.
\<close>

theorem C5_lru_evicts_b_when_clock_advances:
  fixes va vb vc :: 'v
  assumes "maxSize cfg = 2" and "enableLRU cfg"
    and "ka \<noteq> kb" and "ka \<noteq> kc" and "kb \<noteq> kc"
    and "g - tsa \<le> defaultTTL cfg" and "clc - tsa \<le> defaultTTL cfg"
    and "clc - tsb \<le> defaultTTL cfg" and "clc - tsc \<le> defaultTTL cfg"
    and "lab < g" and "lab \<le> lac"
  shows "(let (r, s) = set_set_get_set cfg (tsa, laa, cla) (tsb, lab, clb) g (tsc, lac, clc)
                         (ka, va) (kb, vb) (kc, vc)
          in r = Some va
             \<and> map fst (cache s) = [ka, kc]
             \<and> fst (AdvancedCache_get clc ka s) = Some va
             \<and> fst (AdvancedCache_get clc kc s) = Some vc
             \<and> fst (AdvancedCache_get t kb s) = None)"
  using assms
  by (simp add: set_set_get_set_def AdvancedCache_set_def AdvancedCache_get_def
      AdvancedCache_cleanup_def new_AdvancedCache_def delete_all_def expired_def Let_def
      AList.delete_eq)

theorem C5_lru_evicts_b_when_clock_advances_witness:
  "maxSize (DEFAULT_CACHE_CONFIG\<lparr>maxSize := 2\<rparr>) = 2
   \<and> enableLRU (DEFAULT_CACHE_CONFIG\<lparr>maxSize := 2\<rparr>)
   \<and> ''a'' \<noteq> ''b'' \<and> ''a'' \<noteq> ''c'' \<and> ''b'' \<noteq> ''c''
   \<and> (3::int) - 1 \<le> defaultTTL (DEFAULT_CACHE_CONFIG\<lparr>maxSize := 2\<rparr>)
   \<and> (4::int) - 1 \<le> defaultTTL (DEFAULT_CACHE_CONFIG\<lparr>maxSize := 2\<rparr>)
   \<and> (4::int) - 2 \<le> defaultTTL (DEFAULT_CACHE_CONFIG\<lparr>maxSize := 2\<rparr>)
   \<and> (4::int) - 4 \<le> defaultTTL (DEFAULT_CACHE_CONFIG\<lparr>maxSize := 2\<rparr>)
   \<and> (2::int) < 3 \<and> (2::int) \<le> 4
   \<and> (let (r, s) = set_set_get_set (DEFAULT_CACHE_CONFIG\<lparr>maxSize := 2\<rparr>)
                        (1, 1, 1) (2, 2, 2) 3 (4, 4, 4)
                        (''a'', 10::nat) (''b'', 20) (''c'', 30)
       in r = Some 10
          \<and> map fst (cache s) = [''a'', ''c'']
          \<and> fst (AdvancedCache_get 4 ''a'' s) = Some 10
          \<and> fst (AdvancedCache_get 4 ''c'' s) = Some 30
          \<and> fst (AdvancedCache_get 5 ''b'' s) = None)"
  using C5_lru_evicts_b_when_clock_advances
    [where cfg = "DEFAULT_CACHE_CONFIG\<lparr>maxSize := 2\<rparr>"
      and ka = "''a''" and kb = "''b''" and kc = "''c''"
      and tsa = 1 and laa = 1 and cla = 1 and tsb = 2 and lab = 2 and clb = 2 and g = 3
      and tsc = 4 and lac = 4 and clc = 4
      and va = "10::nat" and vb = 20 and vc = 30 and t = 5]
  by (simp add: DEFAULT_CACHE_CONFIG_def)

text \<open>
  When every clock reading is the same millisecond, the stable sort keeps insertion
  order among the equal \<open>lastAccessed\<close> values and \<open>set(c)\<close> evicts \<open>a\<close>: \<open>b\<close> stays
  retrievable and \<open>a\<close> does not.
\<close>

theorem C5_counterexample:
  "map fst (cache (snd (set_set_get_set (DEFAULT_CACHE_CONFIG\<lparr>maxSize := 2\<rparr>)
                        (0, 0, 0) (0, 0, 0) 0 (0, 0, 0)
                        (''a'', 10::nat) (''b'', 20) (''c'', 30)))) = [''b'', ''c'']
   \<and> fst (AdvancedCache_get 0 ''b''
          (snd (set_set_get_set (DEFAULT_CACHE_CONFIG\<lparr>maxSize := 2\<rparr>)
                        (0, 0, 0) (0, 0, 0) 0 (0, 0, 0)
                        (''a'', 10::nat) (''b'', 20) (''c'', 30)))) = Some 20
   \<and> fst (AdvancedCache_get 0 ''a''
          (snd (set_set_get_set (DEFAULT_CACHE_CONFIG\<lparr>maxSize := 2\<rparr>)
                        (0, 0, 0) (0, 0, 0) 0 (0, 0, 0)
                        (''a'', 10::nat) (''b'', 20) (''c'', 30)))) = None"
  by (simp add: set_set_get_set_def AdvancedCache_set_def AdvancedCache_get_def
      AdvancedCache_cleanup_def new_AdvancedCache_def delete_all_def expired_def Let_def
      AList.delete_eq DEFAULT_CACHE_CONFIG_def)

section \<open>Properties of the retry executor\<close>

text \<open>
  A run on an operation whose every invocation throws an error that the classifier
  accepts, while online: starting with \<open>a\<close> attempts recorded for the operation and
  \<open>m\<close> retries allowed, the operation is invoked \<open>m - a + 1\<close> times, the delays
  waited are those of the attempts \<open>a, ..., m - 1\<close>, the last error is the result and
  the record for the operation is deleted.
\<close>

lemma attempts_of_updates:
  "attempts_of (invocations_update f r) k = attempts_of r k"
  "attempts_of (delays_update g r) k = attempts_of r k"
  "attempts_of (retryAttemptsRef_update h r) k =
     (case h (retryAttemptsRef r) k of None \<Rightarrow> 0 | Some n \<Rightarrow> n)"
  by (simp_all add: attempts_of_def)

lemma retry_always_failing:
  assumes fails: "\<And>i. operation i = Inl (errs i)"
    and cond: "retryCondition cfg = Some p"
    and retryable: "\<And>i. p (errs i)"
    and k: "k = nat (maxRetries cfg) - attempts_of r operationId"
    and le: "attempts_of r operationId \<le> nat (maxRetries cfg)"
  shows "fst (retryWithBackoff cfg True operation operationId r) = Inl (errs (invocations r + k))
     \<and> retryAttemptsRef (snd (retryWithBackoff cfg True operation operationId r))
         = (retryAttemptsRef r)(operationId := None)
     \<and> invocations (snd (retryWithBackoff cfg True operation operationId r))
         = invocations r + k + 1
     \<and> delays (snd (retryWithBackoff cfg True operation operationId r))
         = delays r @ map (backoff_delay cfg) [attempts_of r operationId ..< nat (maxRetries cfg)]"
  using k le
proof (induction k arbitrary: r)
  case 0
  then have "attempts_of r operationId = nat (maxRetries cfg)" by simp
  then have "\<not> int (attempts_of r operationId) < maxRetries cfg" by simp
  then show ?case
    using 0 by (subst (1 2 3 4) retryWithBackoff.simps) (simp add: fails Let_def)
next
  case (Suc k)
  let ?a = "attempts_of r operationId"
  let ?r' = "r\<lparr>invocations := invocations r + 1,
               retryAttemptsRef := (retryAttemptsRef r)(operationId \<mapsto> ?a + 1),
               delays := delays r @ [backoff_delay cfg ?a]\<rparr>"
  from Suc.prems have lt: "?a < nat (maxRetries cfg)" by simp
  then have test: "int ?a < maxRetries cfg" by simp
  have a': "attempts_of ?r' operationId = ?a + 1" by (simp add: attempts_of_updates)
  have step: "retryWithBackoff cfg True operation operationId r =
                retryWithBackoff cfg True operation operationId ?r'"
    using test by (subst retryWithBackoff.simps) (simp add: fails cond retryable Let_def)
  have k': "k = nat (maxRetries cfg) - attempts_of ?r' operationId"
    using Suc.prems(1) unfolding a' by arith
  have le': "attempts_of ?r' operationId \<le> nat (maxRetries cfg)"
    using lt unfolding a' by arith
  have range: "[?a ..< nat (maxRetries cfg)] = ?a # [?a + 1 ..< nat (maxRetries cfg)]"
    using lt by (simp add: upt_conv_Cons)
  show ?case
    using Suc.IH [OF k' le'] unfolding step a' range by (simp add: fun_eq_iff)
qed

text \<open>
  Claim C2, amended. With \<open>maxRetries = 3\<close>, online, and no attempts recorded for the
  operation, an operation that always fails with an error the classifier accepts is
  invoked exactly 4 times, one first attempt and 3 retries; the error of the last
  invocation is the result, and the record for the operation is deleted.
\<close>

theorem C2_retries_exhausted_after_four_invocations:
  assumes "\<forall>i. operation i = Inl (errs i)"
    and "retryCondition cfg = Some p"
    and "\<forall>i. p (errs i)"
    and "maxRetries cfg = 3"
    and "retryAttemptsRef r operationId = None"
  shows "fst (retryWithBackoff cfg True operation operationId r) = Inl (errs (invocations r + 3))
     \<and> invocations (snd (retryWithBackoff cfg True operation operationId r)) = invocations r + 4
     \<and> retryAttemptsRef (snd (retryWithBackoff cfg True operation operationId r)) operationId
         = None"
proof -
  have a: "attempts_of r operationId = 0"
    using assms(5) by (simp add: attempts_of_def)
  have k: "3 = nat (maxRetries cfg) - attempts_of r operationId"
    using assms(4) a by simp
  have le: "attempts_of r operationId \<le> nat (maxRetries cfg)"
    using a by simp
  show ?thesis
    using retry_always_failing [of operation errs cfg p 3 r operationId, OF _ assms(2) _ k le]
      assms(1,3) by simp
qed

theorem C2_retries_exhausted_after_four_invocations_witness:
  "(\<forall>i. (\<lambda>i. Inl i :: nat + unit) i = Inl ((\<lambda>i. i) i))
   \<and> retryCondition (DEFAULT_RETRY_CONFIG (\<lambda>e::nat. True)) = Some (\<lambda>e. True)
   \<and> (\<forall>i::nat. (\<lambda>e::nat. True) ((\<lambda>i. i) i))
   \<and> maxRetries (DEFAULT_RETRY_CONFIG (\<lambda>e::nat. True)) = 3
   \<and> retryAttemptsRef fresh_RetryRefs ''default'' = None
   \<and> fst (retryWithBackoff (DEFAULT_RETRY_CONFIG (\<lambda>e. True)) True (\<lambda>i. Inl i :: nat + unit)
            ''default'' fresh_RetryRefs) = Inl 3
   \<and> invocations (snd (retryWithBackoff (DEFAULT_RETRY_CONFIG (\<lambda>e. True)) True
            (\<lambda>i. Inl i :: nat + unit) ''default'' fresh_RetryRefs)) = 4"
  using C2_retries_exhausted_after_four_invocations
    [where operation = "\<lambda>i. Inl i :: nat + unit" and errs = "\<lambda>i. i"
      and cfg = "DEFAULT_RETRY_CONFIG (\<lambda>e::nat. True)" and p = "\<lambda>e. True"
      and r = fresh_RetryRefs and operationId = "''default''"]
  by (simp add: DEFAULT_RETRY_CONFIG_def fresh_RetryRefs_def)

theorem C2_counterexample:
  "invocations (snd (retryWithBackoff (DEFAULT_RETRY_CONFIG (\<lambda>e. True)) True
      (\<lambda>i. Inl i :: nat + unit) ''default'' fresh_RetryRefs)) \<noteq> 3"
proof -
  have a: "attempts_of fresh_RetryRefs ''default'' = 0"
    by (simp add: attempts_of_def fresh_RetryRefs_def)
  have m: "nat (maxRetries (DEFAULT_RETRY_CONFIG (\<lambda>e::nat. True))) = 3"
    by (simp add: DEFAULT_RETRY_CONFIG_def)
  have "invocations (snd (retryWithBackoff (DEFAULT_RETRY_CONFIG (\<lambda>e. True)) True
      (\<lambda>i. Inl i :: nat + unit) ''default'' fresh_RetryRefs)) = 4"
    using retry_always_failing
      [where operation = "\<lambda>i. Inl i :: nat + unit" and errs = "\<lambda>i. i"
        and cfg = "DEFAULT_RETRY_CONFIG (\<lambda>e::nat. True)" and p = "\<lambda>e. True"
        and r = fresh_RetryRefs and operationId = "''default''" and k = 3]
    by (simp add: a m) (simp add: DEFAULT_RETRY_CONFIG_def fresh_RetryRefs_def)
  then show ?thesis by simp
qed


lemma upt_0_7: "[0..<7] = [0, 1, 2, 3, 4, 5, 6 :: nat]"
  by code_simp

text \<open>
  Claim C3. The delay the executor computes for attempt number \<open>n\<close> is
  \<open>min (initialDelay * backoffMultiplier ^ n) maxDelay\<close>, which never exceeds \<open>maxDelay\<close>;
  with the default 1000, 2 and 30000 the delays of attempts 0 to 6 are 1000, 2000,
  4000, 8000, 16000, 30000, 30000, a nondecreasing sequence; and these are the delays a
  run waits: on an operation that always fails with a retryable error, online and with
  no attempts recorded, the delays passed to \<open>setTimeout\<close> are those of the attempts
  \<open>0, ..., maxRetries - 1\<close>, in this order.
\<close>

theorem C3_backoff_delay_formula:
  "backoff_delay cfg n = min (initialDelay cfg * backoffMultiplier cfg ^ n) (maxDelay cfg)
   \<and> backoff_delay cfg n \<le> maxDelay cfg
   \<and> map (backoff_delay (DEFAULT_RETRY_CONFIG p)) [0..<7]
       = [1000, 2000, 4000, 8000, 16000, 30000, 30000]
   \<and> sorted (map (backoff_delay (DEFAULT_RETRY_CONFIG p)) [0..<7])
   \<and> ((\<forall>i. operation i = Inl (errs i)) \<and> retryCondition cfg = Some q \<and> (\<forall>i. q (errs i))
        \<and> retryAttemptsRef r operationId = None \<longrightarrow>
      delays (snd (retryWithBackoff cfg True operation operationId r))
        = delays r @ map (\<lambda>n. min (initialDelay cfg * backoffMultiplier cfg ^ n) (maxDelay cfg))
                        [0..<nat (maxRetries cfg)])"
proof -
  have seq: "map (backoff_delay (DEFAULT_RETRY_CONFIG p)) [0..<7]
       = [1000, 2000, 4000, 8000, 16000, 30000, 30000]"
    by (simp add: backoff_delay_def DEFAULT_RETRY_CONFIG_def upt_0_7)
  have run: "delays (snd (retryWithBackoff cfg True operation operationId r))
        = delays r @ map (\<lambda>n. min (initialDelay cfg * backoffMultiplier cfg ^ n) (maxDelay cfg))
                        [0..<nat (maxRetries cfg)]"
    if h: "(\<forall>i. operation i = Inl (errs i)) \<and> retryCondition cfg = Some q \<and> (\<forall>i. q (errs i))
        \<and> retryAttemptsRef r operationId = None"
  proof -
    have a: "attempts_of r operationId = 0" using h by (simp add: attempts_of_def)
    have "delays (snd (retryWithBackoff cfg True operation operationId r))
        = delays r @ map (backoff_delay cfg) [attempts_of r operationId ..< nat (maxRetries cfg)]"
      using retry_always_failing
        [of operation errs cfg q "nat (maxRetries cfg)" r operationId] h a
      by simp
    then show ?thesis
      unfolding a by (simp add: backoff_delay_def [abs_def])
  qed
  show ?thesis
    unfolding seq using run by (simp add: backoff_delay_def)
qed

theorem C3_backoff_delay_formula_witness:
  "(\<forall>i. (\<lambda>i. Inl i :: nat + unit) i = Inl ((\<lambda>i. i) i))
   \<and> retryCondition ((DEFAULT_RETRY_CONFIG (\<lambda>e::nat. True))\<lparr>maxRetries := 7\<rparr>) = Some (\<lambda>e. True)
   \<and> (\<forall>i::nat. (\<lambda>e::nat. True) ((\<lambda>i. i) i))
   \<and> retryAttemptsRef fresh_RetryRefs ''default'' = None
   \<and> delays (snd (retryWithBackoff ((DEFAULT_RETRY_CONFIG (\<lambda>e. True))\<lparr>maxRetries := 7\<rparr>) True
                     (\<lambda>i. Inl i :: nat + unit) ''default'' fresh_RetryRefs))
       = [1000, 2000, 4000, 8000, 16000, 30000, 30000]"
  using C3_backoff_delay_formula
    [where operation = "\<lambda>i. Inl i :: nat + unit" and errs = "\<lambda>i. i"
      and cfg = "(DEFAULT_RETRY_CONFIG (\<lambda>e::nat. True))\<lparr>maxRetries := 7\<rparr>"
      and q = "\<lambda>e. True" and r = fresh_RetryRefs and operationId = "''default''"
      and n = 0 and p = "\<lambda>e::nat. True"]
  by (simp add: DEFAULT_RETRY_CONFIG_def fresh_RetryRefs_def upt_0_7)

section \<open>Properties of the rate limiter\<close>

text \<open>
  Claim C9, amended. \<open>getResetTime\<close> returns the oldest recorded time plus the window
  when at least one request is recorded, and \<open>0\<close> when none is.
\<close>

theorem C9_getResetTime_oldest_or_zero:
  "getResetTime windowMs [] = 0
   \<and> (requests \<noteq> [] \<longrightarrow> getResetTime windowMs requests = Min (set requests) + windowMs)"
  by (simp add: getResetTime_def min_list_Min)

theorem C9_getResetTime_oldest_or_zero_witness:
  "[5000, 3000, 4000 :: int] \<noteq> []
   \<and> getResetTime 60000 [5000, 3000, 4000] = 63000
   \<and> getResetTime 60000 [] = 0"
  using C9_getResetTime_oldest_or_zero [of 60000 "[5000, 3000, 4000]"]
  by simp

text \<open>With nothing recorded the result is \<open>0\<close>, not the current time.\<close>

theorem C9_counterexample:
  "getResetTime 60000 [] \<noteq> resetAt_spec 60000 1700000000000 []"
  by (simp add: getResetTime_def resetAt_spec_def)

section \<open>Properties of the WebSocket hook\<close>

lemma fold_subscribe_open:
  "readyState h = Some OPEN \<Longrightarrow>
   sent (fold (\<lambda>subscription h'. snd (subscribe subscription h')) xs h)
     = sent h @ map Subscribe xs"
  by (induction xs arbitrary: h) (simp_all add: subscribe_def sendMessage_def)

lemma sent_open_replay:
  "sent (runTimeouts (onopen wsConfig h))
     = sent h @ map Subscribe (timeouts h @ subscriptions wsConfig)"
  by (simp add: runTimeouts_def onopen_def handleOpen_def fold_subscribe_open del: fold_append)

text \<open>
  Claim C6, amended. \<open>subscribe\<close> tracks nothing: a call sends one subscribe frame
  when the socket is open and none otherwise, and leaves the pending timers and the
  state as they are, so two calls with the same subscription send two frames or none.
  When the socket opens and the timers then fire on the open socket, the frames sent are
  one subscribe frame per entry of the configured \<open>subscriptions\<close> list (after those of
  timers still pending), in order, whatever \<open>subscribe\<close> calls came before: a
  subscription is sent as many times as it occurs in that list.
\<close>

theorem C6_open_replays_configured_subscriptions:
  "sent (snd (subscribe s (snd (subscribe s h))))
     = sent h @ (if readyState h = Some OPEN then [Subscribe s, Subscribe s] else [])
   \<and> timeouts (snd (subscribe s (snd (subscribe s h)))) = timeouts h
   \<and> state (snd (subscribe s (snd (subscribe s h)))) = state h
   \<and> sent (runTimeouts (onopen wsConfig (snd (subscribe s (snd (subscribe s h))))))
     = sent (snd (subscribe s (snd (subscribe s h))))
         @ map Subscribe (timeouts h @ subscriptions wsConfig)
   \<and> sent (runTimeouts (onopen wsConfig h))
     = sent h @ map Subscribe (timeouts h @ subscriptions wsConfig)"
proof -
  let ?h2 = "snd (subscribe s (snd (subscribe s h)))"
  have t: "timeouts ?h2 = timeouts h"
    by (simp add: subscribe_def sendMessage_def)
  have "sent (runTimeouts (onopen wsConfig ?h2))
     = sent ?h2 @ map Subscribe (timeouts ?h2 @ subscriptions wsConfig)"
    by (rule sent_open_replay)
  then show ?thesis
    unfolding t by (simp add: sent_open_replay) (simp add: subscribe_def sendMessage_def)
qed

text \<open>
  With no configured subscriptions, subscribing to the trades of BTC twice before the
  socket is open and then opening it sends no subscribe frame at all; subscribing twice
  on the open socket sends two.
\<close>

theorem C6_counterexample:
  "count_list
     (sent (runTimeouts (onopen DEFAULT_CONFIG
        (snd (subscribe \<lparr>sub_type = trades, coin = Some ''BTC'', user = None\<rparr>
          (snd (subscribe \<lparr>sub_type = trades, coin = Some ''BTC'', user = None\<rparr>
            initial_Hook)))))))
     (Subscribe \<lparr>sub_type = trades, coin = Some ''BTC'', user = None\<rparr>) = 0
   \<and> count_list
     (sent (snd (subscribe \<lparr>sub_type = trades, coin = Some ''BTC'', user = None\<rparr>
          (snd (subscribe \<lparr>sub_type = trades, coin = Some ''BTC'', user = None\<rparr>
            (onopen DEFAULT_CONFIG initial_Hook))))))
     (Subscribe \<lparr>sub_type = trades, coin = Some ''BTC'', user = None\<rparr>) = 2"
  by (simp add: runTimeouts_def onopen_def handleOpen_def subscribe_def sendMessage_def
      DEFAULT_CONFIG_def initial_Hook_def)

lemma handleEvent_keeps_connection:
  "isConnected (state (handleEvent e h)) = isConnected (state h)
   \<and> isConnecting (state (handleEvent e h)) = isConnecting (state h)
   \<and> reconnectCount (state (handleEvent e h)) = reconnectCount (state h)
   \<and> reconnectTimeoutRef (handleEvent e h) = reconnectTimeoutRef h
   \<and> heartbeatTimeoutRef (handleEvent e h) = heartbeatTimeoutRef h
   \<and> readyState (handleEvent e h) = readyState h"
  by (cases e) (simp_all add: sendPing_def sendMessage_def handleMessage_def Let_def
      split: WSFrame.split)

lemma fold_handleEvent_keeps_connection:
  "isConnected (state (fold handleEvent events h)) = isConnected (state h)
   \<and> isConnecting (state (fold handleEvent events h)) = isConnecting (state h)
   \<and> reconnectCount (state (fold handleEvent events h)) = reconnectCount (state h)
   \<and> reconnectTimeoutRef (fold handleEvent events h) = reconnectTimeoutRef h
   \<and> heartbeatTimeoutRef (fold handleEvent events h) = heartbeatTimeoutRef h
   \<and> readyState (fold handleEvent events h) = readyState h"
proof (induction events arbitrary: h)
  case Nil
  show ?case by simp
next
  case (Cons e events)
  show ?case
    using Cons.IH [of "handleEvent e h"] handleEvent_keeps_connection [of e h] by simp
qed

text \<open>
  Claim C7, amended. The hook has no pong deadline. A heartbeat tick on an open socket
  records the time and sends a ping; a pong only sets \<open>latency\<close> to the time since the
  last ping. No sequence of heartbeat ticks and incoming frames, with or without pongs,
  changes \<open>isConnected\<close>, \<open>isConnecting\<close>, the reconnect counter, the reconnect timer, the
  heartbeat timer or the socket: a connection on which no pong arrives stays connected
  until the socket itself closes.
\<close>

theorem C7_heartbeat_without_pong_stays_connected:
  "isConnected (state (fold handleEvent events h)) = isConnected (state h)
   \<and> isConnecting (state (fold handleEvent events h)) = isConnecting (state h)
   \<and> reconnectCount (state (fold handleEvent events h)) = reconnectCount (state h)
   \<and> reconnectTimeoutRef (fold handleEvent events h) = reconnectTimeoutRef h
   \<and> heartbeatTimeoutRef (fold handleEvent events h) = heartbeatTimeoutRef h
   \<and> readyState (fold handleEvent events h) = readyState h
   \<and> latency (state (handleMessage now Pong h)) = now - pingTimeRef h
   \<and> sent (sendPing now h) = sent h @ (if readyState h = Some OPEN then [Ping] else [])"
  using fold_handleEvent_keeps_connection [of events h]
  by (simp add: handleMessage_def sendPing_def sendMessage_def)

text \<open>
  A connection opened at time 0 with the default heartbeat of 30000 ms, on which four
  pings are sent and no pong ever arrives, is still connected at time 120000, twice the
  heartbeat interval after the second ping, with no reconnection scheduled.
\<close>

theorem C7_counterexample:
  "isConnected (state (fold handleEvent
       [HeartbeatTick 30000, HeartbeatTick 60000, HeartbeatTick 90000, HeartbeatTick 120000]
       (onopen DEFAULT_CONFIG initial_Hook)))
   \<and> reconnectTimeoutRef (fold handleEvent
       [HeartbeatTick 30000, HeartbeatTick 60000, HeartbeatTick 90000, HeartbeatTick 120000]
       (onopen DEFAULT_CONFIG initial_Hook)) = None
   \<and> sent (fold handleEvent
       [HeartbeatTick 30000, HeartbeatTick 60000, HeartbeatTick 90000, HeartbeatTick 120000]
       (onopen DEFAULT_CONFIG initial_Hook)) = [Ping, Ping, Ping, Ping]"
  by (simp add: onopen_def handleOpen_def sendPing_def sendMessage_def DEFAULT_CONFIG_def
      initial_Hook_def)




text \<open>
  A close handler created in a render whose counter was 0 keeps reading 0, whatever the
  counter has become since: its delay is \<open>reconnectInterval\<close> each time.
\<close>

lemma handleClose_of_first_render:
  assumes "code \<noteq> 1000" and "0 < reconnectAttempts wsConfig" and "reconnectCount rendered = 0"
  shows "reconnectTimeoutRef (handleClose wsConfig rendered code h)
           = Some (reconnectInterval wsConfig)
     \<and> reconnectCount (state (handleClose wsConfig rendered code h))
           = reconnectCount (state h) + 1"
  using assms by (simp add: handleClose_def Let_def)

end
